theory Spec2Isabelle
  imports Main "HOL-Library.Word"
begin

section \<open>The circuit breaker of breaker.go\<close>

text \<open>
  The embedding follows \<^verbatim>\<open>breaker.go\<close> function by function.

  \<^item> \<^verbatim>\<open>uint32\<close> counters are \<open>32 word\<close> and the \<^verbatim>\<open>uint64\<close> generation is \<open>64 word\<close>:
    \<open>+ 1\<close> wraps as \<^verbatim>\<open>++\<close> does in Go.
  \<^item> A \<^verbatim>\<open>time.Time\<close> is the number of nanoseconds since Go's zero instant, an \<open>int\<close>;
    \<^verbatim>\<open>IsZero\<close> is \<open>t = 0\<close>, \<^verbatim>\<open>a.Before(b)\<close> is \<open>a < b\<close> and \<^verbatim>\<open>t.Add(d)\<close> is \<open>t + d\<close>.
    A \<^verbatim>\<open>time.Duration\<close> is an \<open>int\<close> of nanoseconds.
  \<^item> Every call of \<^verbatim>\<open>time.Now()\<close> is an argument \<open>now\<close> of the function that makes it.
  \<^item> The mutex is not modelled: each operation runs from its start to its end on the
    breaker, so the model is that of one caller at a time.
  \<^item> \<^verbatim>\<open>onStateChange\<close> is a caller's function; the model keeps whether it is set and
    appends every call made to it, with its arguments, to the field \<open>notified\<close>.
\<close>

datatype State = StateClosed | StateHalfOpen | StateOpen

datatype error = ErrTooManyRequests | ErrOpenState

record Counts =
  Requests :: "32 word"
  TotalSuccesses :: "32 word"
  TotalFailures :: "32 word"
  ConsecutiveSuccesses :: "32 word"
  ConsecutiveFailures :: "32 word"

definition defaultInterval :: int where
  "defaultInterval = 0 * 1000000000"

definition defaultTimeout :: int where
  "defaultTimeout = 60 * 1000000000"

definition defaultMaxRequests :: "32 word" where
  "defaultMaxRequests = 1"

definition defaultMaxConsecutiveFailures :: "32 word" where
  "defaultMaxConsecutiveFailures = 5"

text \<open>The four methods of \<^verbatim>\<open>Counts\<close>.\<close>

definition Counts_onRequest :: "Counts \<Rightarrow> Counts" where
  "Counts_onRequest c = c\<lparr>Requests := Requests c + 1\<rparr>"

definition Counts_onSuccess :: "Counts \<Rightarrow> Counts" where
  "Counts_onSuccess c =
     c\<lparr>TotalSuccesses := TotalSuccesses c + 1,
       ConsecutiveSuccesses := ConsecutiveSuccesses c + 1,
       ConsecutiveFailures := 0\<rparr>"

definition Counts_onFailure :: "Counts \<Rightarrow> Counts" where
  "Counts_onFailure c =
     c\<lparr>TotalFailures := TotalFailures c + 1,
       ConsecutiveFailures := ConsecutiveFailures c + 1,
       ConsecutiveSuccesses := 0\<rparr>"

definition Counts_clear :: "Counts \<Rightarrow> Counts" where
  "Counts_clear c =
     c\<lparr>Requests := 0, TotalSuccesses := 0, TotalFailures := 0,
       ConsecutiveSuccesses := 0, ConsecutiveFailures := 0\<rparr>"

definition defaultReadyToTrip :: "Counts \<Rightarrow> bool" where
  "defaultReadyToTrip c \<longleftrightarrow> ConsecutiveFailures c > defaultMaxConsecutiveFailures"

text \<open>
  \<^verbatim>\<open>Config\<close>: a nil \<^verbatim>\<open>ReadyToTrip\<close> is \<open>None\<close>; \<open>OnStateChange\<close> says whether the
  callback is set.
\<close>

record Config =
  Name :: string
  MaxRequests :: "32 word"
  Interval :: int
  Timeout :: int
  ReadyToTrip :: "(Counts \<Rightarrow> bool) option"
  OnStateChange :: bool

record CircuitBreaker =
  name :: string
  maxRequests :: "32 word"
  interval :: int
  timeout :: int
  readyToTrip :: "Counts \<Rightarrow> bool"
  onStateChange :: bool
  state :: State
  generation :: "64 word"
  counts :: Counts
  expiry :: int
  notified :: "(string \<times> State \<times> State) list"

text \<open>\<^verbatim>\<open>reset\<close>: a new generation, cleared counts, and the expiry of the current state.\<close>

definition reset :: "int \<Rightarrow> CircuitBreaker \<Rightarrow> CircuitBreaker" where
  "reset now cb =
     cb\<lparr>generation := generation cb + 1,
        counts := Counts_clear (counts cb),
        expiry := (case state cb of
                     StateClosed \<Rightarrow> if interval cb = 0 then 0 else now + interval cb
                   | StateOpen \<Rightarrow> now + timeout cb
                   | StateHalfOpen \<Rightarrow> 0)\<rparr>"

text \<open>\<^verbatim>\<open>setState\<close>: nothing when the state is the same; else the state, a reset, the callback.\<close>

definition setState :: "State \<Rightarrow> int \<Rightarrow> CircuitBreaker \<Rightarrow> CircuitBreaker" where
  "setState st now cb =
     (if state cb = st then cb
      else
        let prev = state cb;
            cb1 = reset now (cb\<lparr>state := st\<rparr>)
        in if onStateChange cb1
           then cb1\<lparr>notified := notified cb1 @ [(name cb1, prev, st)]\<rparr>
           else cb1)"

text \<open>\<^verbatim>\<open>currentState\<close> returns the breaker as it leaves it, with the state and generation.\<close>

definition currentState :: "int \<Rightarrow> CircuitBreaker \<Rightarrow> CircuitBreaker \<times> State \<times> 64 word" where
  "currentState now cb =
     (let cb1 = (case state cb of
                   StateClosed \<Rightarrow>
                     if expiry cb \<noteq> 0 \<and> expiry cb < now then reset now cb else cb
                 | StateOpen \<Rightarrow>
                     if expiry cb < now then setState StateHalfOpen now cb else cb
                 | StateHalfOpen \<Rightarrow> cb)
      in (cb1, state cb1, generation cb1))"

definition onSuccess :: "State \<Rightarrow> int \<Rightarrow> CircuitBreaker \<Rightarrow> CircuitBreaker" where
  "onSuccess st now cb =
     (case st of
        StateClosed \<Rightarrow> cb\<lparr>counts := Counts_onSuccess (counts cb)\<rparr>
      | StateHalfOpen \<Rightarrow>
          (let cb1 = cb\<lparr>counts := Counts_onSuccess (counts cb)\<rparr>
           in if ConsecutiveSuccesses (counts cb1) \<ge> maxRequests cb1
              then setState StateClosed now cb1 else cb1)
      | StateOpen \<Rightarrow> cb)"

definition onFailure :: "State \<Rightarrow> int \<Rightarrow> CircuitBreaker \<Rightarrow> CircuitBreaker" where
  "onFailure st now cb =
     (case st of
        StateClosed \<Rightarrow>
          (let cb1 = cb\<lparr>counts := Counts_onFailure (counts cb)\<rparr>
           in if readyToTrip cb1 (counts cb1)
              then setState StateOpen now cb1 else cb1)
      | StateHalfOpen \<Rightarrow> setState StateOpen now cb
      | StateOpen \<Rightarrow> cb)"

text \<open>\<^verbatim>\<open>beforeRequest\<close> returns the breaker, the generation and the error (\<open>None\<close> is nil).\<close>

definition beforeRequest ::
  "int \<Rightarrow> CircuitBreaker \<Rightarrow> CircuitBreaker \<times> 64 word \<times> error option" where
  "beforeRequest now cb =
     (case currentState now cb of (cb1, st, gen) \<Rightarrow>
        if st = StateOpen then (cb1, gen, Some ErrOpenState)
        else if st = StateHalfOpen \<and> Requests (counts cb1) \<ge> maxRequests cb1
        then (cb1, gen, Some ErrTooManyRequests)
        else (cb1\<lparr>counts := Counts_onRequest (counts cb1)\<rparr>, gen, None))"

definition afterRequest :: "64 word \<Rightarrow> bool \<Rightarrow> int \<Rightarrow> CircuitBreaker \<Rightarrow> CircuitBreaker" where
  "afterRequest before success now cb =
     (case currentState now cb of (cb1, st, gen) \<Rightarrow>
        if gen \<noteq> before then cb1
        else if success then onSuccess st now cb1
        else onFailure st now cb1)"

text \<open>
  \<^verbatim>\<open>NewCircuitBreaker\<close>: \<^verbatim>\<open>new(CircuitBreaker)\<close> is the zero value (closed, generation 0,
  zero counts, zero expiry), then the settings are normalised and \<^verbatim>\<open>reset\<close> runs.
\<close>

definition NewCircuitBreaker :: "Config \<Rightarrow> int \<Rightarrow> CircuitBreaker" where
  "NewCircuitBreaker st now =
     reset now
       \<lparr>name = Name st,
        maxRequests = (if MaxRequests st = 0 then defaultMaxRequests else MaxRequests st),
        interval = (if Interval st \<le> 0 then defaultInterval else Interval st),
        timeout = (if Timeout st \<le> 0 then defaultTimeout else Timeout st),
        readyToTrip = (case ReadyToTrip st of None \<Rightarrow> defaultReadyToTrip | Some f \<Rightarrow> f),
        onStateChange = OnStateChange st,
        state = StateClosed,
        generation = 0,
        counts = \<lparr>Requests = 0, TotalSuccesses = 0, TotalFailures = 0,
                  ConsecutiveSuccesses = 0, ConsecutiveFailures = 0\<rparr>,
        expiry = 0,
        notified = []\<rparr>"

text \<open>The exported methods. Each returns the breaker after the call, with its result.\<close>

definition CircuitBreaker_Name :: "CircuitBreaker \<Rightarrow> string" where
  "CircuitBreaker_Name cb = name cb"

definition CircuitBreaker_State :: "int \<Rightarrow> CircuitBreaker \<Rightarrow> CircuitBreaker \<times> State" where
  "CircuitBreaker_State now cb =
     (case currentState now cb of (cb1, st, gen) \<Rightarrow> (cb1, st))"

definition CircuitBreaker_Counts :: "CircuitBreaker \<Rightarrow> Counts" where
  "CircuitBreaker_Counts cb = counts cb"

definition BeforeRequest :: "int \<Rightarrow> CircuitBreaker \<Rightarrow> CircuitBreaker \<times> error option" where
  "BeforeRequest now cb =
     (case beforeRequest now cb of (cb1, gen, err) \<Rightarrow> (cb1, err))"

text \<open>
  \<^verbatim>\<open>OnSuccess\<close> and \<^verbatim>\<open>OnFailure\<close> pass \<^verbatim>\<open>cb.generation\<close> as it is when they are
  called: the generation that \<^verbatim>\<open>beforeRequest\<close> returned was dropped by \<^verbatim>\<open>BeforeRequest\<close>.
\<close>

definition OnSuccess :: "int \<Rightarrow> CircuitBreaker \<Rightarrow> CircuitBreaker" where
  "OnSuccess now cb = afterRequest (generation cb) True now cb"

definition OnFailure :: "int \<Rightarrow> CircuitBreaker \<Rightarrow> CircuitBreaker" where
  "OnFailure now cb = afterRequest (generation cb) False now cb"

text \<open>A call of an exported method, with the instant \<^verbatim>\<open>time.Now()\<close> gives it.\<close>

datatype call =
    CallName
  | CallState int
  | CallCounts
  | CallBeforeRequest int
  | CallOnSuccess int
  | CallOnFailure int

fun step :: "call \<Rightarrow> CircuitBreaker \<Rightarrow> CircuitBreaker" where
  "step CallName cb = cb"
| "step (CallState now) cb = fst (CircuitBreaker_State now cb)"
| "step CallCounts cb = cb"
| "step (CallBeforeRequest now) cb = fst (BeforeRequest now cb)"
| "step (CallOnSuccess now) cb = OnSuccess now cb"
| "step (CallOnFailure now) cb = OnFailure now cb"

fun run :: "call list \<Rightarrow> CircuitBreaker \<Rightarrow> CircuitBreaker" where
  "run [] cb = cb"
| "run (c # cs) cb = run cs (step c cb)"

text \<open>The counts after \<^verbatim>\<open>clear\<close>.\<close>

definition zeroCounts :: Counts where
  "zeroCounts = \<lparr>Requests = 0, TotalSuccesses = 0, TotalFailures = 0,
                  ConsecutiveSuccesses = 0, ConsecutiveFailures = 0\<rparr>"

text \<open>The two streak counters are not both nonzero.\<close>

definition streaksExclusive :: "Counts \<Rightarrow> bool" where
  "streaksExclusive c \<longleftrightarrow> ConsecutiveSuccesses c = 0 \<or> ConsecutiveFailures c = 0"

text \<open>
  Admissions along a sequence of calls: \<open>admitted\<close> says that a call is a
  \<^verbatim>\<open>BeforeRequest\<close> that returns nil, \<open>admissions\<close> counts them, and
  \<open>halfOpenIn g\<close> says that every call of the sequence finds the breaker half-open
  in generation \<open>g\<close>.
\<close>

fun admitted :: "call \<Rightarrow> CircuitBreaker \<Rightarrow> bool" where
  "admitted (CallBeforeRequest now) cb = (snd (BeforeRequest now cb) = None)"
| "admitted CallName cb = False"
| "admitted (CallState now) cb = False"
| "admitted CallCounts cb = False"
| "admitted (CallOnSuccess now) cb = False"
| "admitted (CallOnFailure now) cb = False"

fun admissions :: "call list \<Rightarrow> CircuitBreaker \<Rightarrow> nat" where
  "admissions [] cb = 0"
| "admissions (c # cs) cb = (if admitted c cb then 1 else 0) + admissions cs (step c cb)"

fun halfOpenIn :: "64 word \<Rightarrow> call list \<Rightarrow> CircuitBreaker \<Rightarrow> bool" where
  "halfOpenIn g [] cb = True"
| "halfOpenIn g (c # cs) cb =
     (state cb = StateHalfOpen \<and> generation cb = g \<and> halfOpenIn g cs (step c cb))"

text \<open>
  \<open>probes cs cb n\<close> is the number of admissions in the generation the breaker is in
  after the calls \<open>cs\<close>, when \<open>n\<close> were admitted in the generation of \<open>cb\<close>: a call
  that changes the generation starts the count again, and a \<^verbatim>\<open>BeforeRequest\<close> that
  returns nil adds one. A \<^verbatim>\<open>BeforeRequest\<close> that itself moves the breaker from open to
  half-open and is admitted counts in the new generation, since \<^verbatim>\<open>beforeRequest\<close>
  resolves the state before it records the request.
\<close>

fun probes :: "call list \<Rightarrow> CircuitBreaker \<Rightarrow> nat \<Rightarrow> nat" where
  "probes [] cb n = n"
| "probes (c # cs) cb n =
     probes cs (step c cb)
       ((if generation (step c cb) = generation cb then n else 0)
        + (if admitted c cb then 1 else 0))"

subsection \<open>The breaker of the repository's test\<close>

text \<open>
  \<^verbatim>\<open>TestNewCircuitBreaker\<close> builds a breaker with six probes, an interval and a timeout
  of one second, and a trip at three consecutive failures. The states below are reached
  from it by calls of the exported methods; instants are in nanoseconds.
\<close>

definition testReadyToTrip :: "Counts \<Rightarrow> bool" where
  "testReadyToTrip c \<longleftrightarrow> ConsecutiveFailures c \<ge> 3"

definition testConfig :: Config where
  "testConfig =
     \<lparr>Name = ''random-service'', MaxRequests = 6, Interval = 1000000000,
      Timeout = 1000000000, ReadyToTrip = Some testReadyToTrip, OnStateChange = True\<rparr>"

definition testClosed :: CircuitBreaker where
  "testClosed =
     run [CallBeforeRequest 0, CallOnFailure 0,
          CallBeforeRequest 100000000, CallOnFailure 100000000,
          CallBeforeRequest 200000000]
       (NewCircuitBreaker testConfig 0)"

definition testOpen :: CircuitBreaker where
  "testOpen = run [CallOnFailure 200000000] testClosed"

definition testHalfOpen :: CircuitBreaker where
  "testHalfOpen = run [CallState 1300000000] testOpen"

definition testProbed :: CircuitBreaker where
  "testProbed =
     run [CallBeforeRequest 1300000000, CallOnSuccess 1300000000,
          CallBeforeRequest 1400000000, CallOnSuccess 1400000000,
          CallBeforeRequest 1500000000, CallOnSuccess 1500000000,
          CallBeforeRequest 1600000000, CallOnSuccess 1600000000,
          CallBeforeRequest 1700000000, CallOnSuccess 1700000000,
          CallBeforeRequest 1800000000]
       testHalfOpen"

text \<open>
  The settings of the scenario with one probe: a request is admitted and is still
  running while three others fail, the breaker opens, and a state read after the
  timeout makes it half-open.
\<close>

definition scenarioConfig :: Config where
  "scenarioConfig =
     \<lparr>Name = ''svc'', MaxRequests = 1, Interval = 0,
      Timeout = 1000000000, ReadyToTrip = Some testReadyToTrip, OnStateChange = True\<rparr>"

definition slowAdmitted :: "CircuitBreaker \<times> 64 word \<times> error option" where
  "slowAdmitted = beforeRequest 0 (NewCircuitBreaker scenarioConfig 0)"

definition slowHalfOpen :: CircuitBreaker where
  "slowHalfOpen =
     run [CallBeforeRequest 100000000, CallOnFailure 100000000,
          CallBeforeRequest 200000000, CallOnFailure 200000000,
          CallBeforeRequest 300000000, CallOnFailure 300000000,
          CallState 1300000001]
       (fst slowAdmitted)"

text \<open>A request admitted before a rollover of the closed state, reported after it.\<close>

definition rolledOver :: CircuitBreaker where
  "rolledOver =
     run [CallBeforeRequest 0, CallState 1500000000, CallOnSuccess 1500000000]
       (NewCircuitBreaker testConfig 0)"

text \<open>Seven admission checks in a row, all after the timeout of the open breaker of the test.\<close>

definition sevenChecks :: "call list" where
  "sevenChecks =
     [CallBeforeRequest 1300000000, CallBeforeRequest 1300000001,
      CallBeforeRequest 1300000002, CallBeforeRequest 1300000003,
      CallBeforeRequest 1300000004, CallBeforeRequest 1300000005,
      CallBeforeRequest 1300000006]"

section \<open>Lemmas\<close>

lemmas counts_defs =
  Counts_onRequest_def Counts_onSuccess_def Counts_onFailure_def Counts_clear_def

lemmas breaker_defs =
  reset_def setState_def currentState_def onSuccess_def onFailure_def
  beforeRequest_def afterRequest_def CircuitBreaker_State_def BeforeRequest_def
  OnSuccess_def OnFailure_def

lemmas eval_defs = breaker_defs counts_defs zeroCounts_def testReadyToTrip_def word_le_nat_alt

subsection \<open>The settings are normalised once and never change\<close>

lemma NewCircuitBreaker_normalised:
  "maxRequests (NewCircuitBreaker st now) \<noteq> 0
   \<and> 0 < timeout (NewCircuitBreaker st now)
   \<and> 0 \<le> interval (NewCircuitBreaker st now)
   \<and> state (NewCircuitBreaker st now) = StateClosed
   \<and> generation (NewCircuitBreaker st now) = 1
   \<and> counts (NewCircuitBreaker st now) = zeroCounts"
  by (simp add: NewCircuitBreaker_def reset_def Counts_clear_def zeroCounts_def
      defaultMaxRequests_def defaultTimeout_def defaultInterval_def)

lemma step_settings:
  "maxRequests (step c cb) = maxRequests cb \<and> timeout (step c cb) = timeout cb
   \<and> interval (step c cb) = interval cb \<and> name (step c cb) = name cb
   \<and> onStateChange (step c cb) = onStateChange cb"
  by (cases c; cases "state cb"; simp add: breaker_defs Let_def)

lemma run_settings:
  "maxRequests (run cs cb) = maxRequests cb \<and> timeout (run cs cb) = timeout cb
   \<and> interval (run cs cb) = interval cb \<and> name (run cs cb) = name cb
   \<and> onStateChange (run cs cb) = onStateChange cb"
  by (induction cs arbitrary: cb) (simp_all add: step_settings)

lemma reachable_settings:
  "maxRequests (run cs (NewCircuitBreaker st now)) \<noteq> 0
   \<and> 0 < timeout (run cs (NewCircuitBreaker st now))"
  using NewCircuitBreaker_normalised [of st now] by (simp add: run_settings)

subsection \<open>The generation check of \<^verbatim>\<open>afterRequest\<close>\<close>

text \<open>
  A report whose stamp differs from the generation that \<^verbatim>\<open>currentState\<close> returns does
  nothing after the state resolution.
\<close>

lemma afterRequest_stale:
  "snd (snd (currentState now cb)) \<noteq> before \<Longrightarrow>
     afterRequest before success now cb = fst (currentState now cb)"
  by (cases "currentState now cb") (simp add: afterRequest_def)

subsection \<open>A state resolved to open\<close>

lemma currentState_Open:
  assumes "currentState now cb = (cb1, StateOpen, gen)"
  shows "cb1 = cb \<and> gen = generation cb \<and> state cb = StateOpen \<and> \<not> expiry cb < now"
  using assms
  by (cases "state cb")
    (auto simp add: currentState_def setState_def reset_def Let_def split: if_splits)

subsection \<open>The streak counters\<close>

lemma streaks_reset: "streaksExclusive (counts (reset now cb))"
  by (simp add: streaksExclusive_def reset_def Counts_clear_def)

lemma streaks_setState:
  "streaksExclusive (counts cb) \<Longrightarrow> streaksExclusive (counts (setState st now cb))"
  by (simp add: setState_def Let_def streaksExclusive_def reset_def Counts_clear_def)

lemma streaks_currentState:
  "streaksExclusive (counts cb) \<Longrightarrow> streaksExclusive (counts (fst (currentState now cb)))"
  by (cases "state cb") (simp_all add: currentState_def Let_def streaks_reset streaks_setState)

lemma streaks_onSuccess:
  "streaksExclusive (counts cb) \<Longrightarrow> streaksExclusive (counts (onSuccess st now cb))"
  by (cases st)
    (simp_all add: onSuccess_def setState_def reset_def counts_defs streaksExclusive_def Let_def)

lemma streaks_onFailure:
  "streaksExclusive (counts cb) \<Longrightarrow> streaksExclusive (counts (onFailure st now cb))"
  by (cases st)
    (simp_all add: onFailure_def setState_def reset_def counts_defs streaksExclusive_def Let_def)

lemma streaks_afterRequest:
  assumes "streaksExclusive (counts cb)"
  shows "streaksExclusive (counts (afterRequest before success now cb))"
proof -
  obtain cb1 st gen where cs: "currentState now cb = (cb1, st, gen)"
    by (cases "currentState now cb") auto
  from assms have s1: "streaksExclusive (counts cb1)"
    using streaks_currentState [of cb now] cs by simp
  then show ?thesis
    by (simp add: afterRequest_def cs streaks_onSuccess streaks_onFailure)
qed

lemma streaks_beforeRequest:
  assumes "streaksExclusive (counts cb)"
  shows "streaksExclusive (counts (fst (beforeRequest now cb)))"
proof -
  obtain cb1 st gen where cs: "currentState now cb = (cb1, st, gen)"
    by (cases "currentState now cb") auto
  from assms have s1: "streaksExclusive (counts cb1)"
    using streaks_currentState [of cb now] cs by simp
  then show ?thesis
    by (simp add: beforeRequest_def cs streaksExclusive_def Counts_onRequest_def)
qed

lemma streaks_step:
  assumes "streaksExclusive (counts cb)"
  shows "streaksExclusive (counts (step c cb))"
proof (cases c)
  case (CallState now)
  obtain cb1 st gen where cs: "currentState now cb = (cb1, st, gen)"
    by (cases "currentState now cb") auto
  then show ?thesis using assms streaks_currentState [of cb now] CallState
    by (simp add: CircuitBreaker_State_def)
next
  case (CallBeforeRequest now)
  obtain cb1 gen err where br: "beforeRequest now cb = (cb1, gen, err)"
    by (cases "beforeRequest now cb") auto
  then show ?thesis using assms streaks_beforeRequest [of cb now] CallBeforeRequest
    by (simp add: BeforeRequest_def)
qed (simp_all add: assms OnSuccess_def OnFailure_def streaks_afterRequest)

lemma streaks_run:
  "streaksExclusive (counts cb) \<Longrightarrow> streaksExclusive (counts (run cs cb))"
  by (induction cs arbitrary: cb) (simp_all add: streaks_step)

subsection \<open>Admissions while half-open\<close>

lemma unat_inc:
  fixes x y :: "'a::len word"
  assumes "x < y"
  shows "unat (x + 1) = unat x + 1"
proof -
  have a: "unat x < unat y" using assms by (simp add: word_less_nat_alt)
  have b: "unat y < 2 ^ LENGTH('a)" by (rule unsigned_less)
  from a b have "unat x + 1 < 2 ^ LENGTH('a)" by linarith
  then have "unat x + unat (1 :: 'a word) < 2 ^ LENGTH('a)" by simp
  then show ?thesis using unat_add_lem [of x 1] by simp
qed

lemma halfOpen_admitted:
  assumes "state cb = StateHalfOpen" and "admitted c cb"
  shows "Requests (counts cb) < maxRequests cb"
  using assms
  by (cases c)
    (simp_all add: BeforeRequest_def beforeRequest_def currentState_def split: if_splits)

lemma halfOpen_step:
  assumes "state cb = StateHalfOpen" and "state (step c cb) = StateHalfOpen"
  shows "maxRequests (step c cb) = maxRequests cb"
    and "Requests (counts (step c cb)) =
           Requests (counts cb) + (if admitted c cb then 1 else 0)"
    and "generation (step c cb) = generation cb"
  using assms
  by (cases c; simp add: breaker_defs counts_defs Let_def split: if_splits)+

lemma admissions_bound:
  "halfOpenIn g cs cb \<Longrightarrow> Requests (counts cb) \<le> maxRequests cb \<Longrightarrow>
     unat (Requests (counts cb)) + admissions cs cb \<le> unat (maxRequests cb)"
proof (induction cs arbitrary: cb)
  case Nil
  then show ?case by (simp add: word_le_nat_alt)
next
  case (Cons c cs)
  from Cons.prems have ho: "state cb = StateHalfOpen" by simp
  show ?case
  proof (cases cs)
    case Nil
    show ?thesis
    proof (cases "admitted c cb")
      case True
      then have "Requests (counts cb) < maxRequests cb"
        using halfOpen_admitted [OF ho] by simp
      then show ?thesis using True Nil by (simp add: word_less_nat_alt)
    next
      case False
      then show ?thesis using Nil Cons.prems(2) by (simp add: word_le_nat_alt)
    qed
  next
    case (Cons d ds)
    with Cons.prems have ho': "state (step c cb) = StateHalfOpen" and
      hin: "halfOpenIn g cs (step c cb)" by simp_all
    note st = halfOpen_step [OF ho ho']
    show ?thesis
    proof (cases "admitted c cb")
      case True
      then have lt: "Requests (counts cb) < maxRequests cb"
        using halfOpen_admitted [OF ho] by simp
      then have le': "Requests (counts (step c cb)) \<le> maxRequests (step c cb)"
        using st True by (simp add: inc_le)
      have un: "unat (Requests (counts (step c cb))) = unat (Requests (counts cb)) + 1"
        using st(2) True unat_inc [OF lt] by simp
      show ?thesis
        using Cons.IH [OF hin le'] un st(1) True by simp
    next
      case False
      then have le': "Requests (counts (step c cb)) \<le> maxRequests (step c cb)"
        using st Cons.prems(2) by simp
      show ?thesis
        using Cons.IH [OF hin le'] st False by simp
    qed
  qed
qed

subsection \<open>Admissions counted by generation\<close>

lemma word_one_le:
  fixes x :: "'a::len word"
  shows "x \<noteq> 0 \<Longrightarrow> 1 \<le> x"
  using inc_le [of 0 x] by (simp add: word_neq_0_conv)

lemma budget_from_open:
  assumes "state cb = StateOpen" and "state (step c cb) = StateHalfOpen"
  shows "generation (step c cb) \<noteq> generation cb"
    and "Requests (counts (step c cb)) = (if admitted c cb then 1 else 0)"
    and "Requests (counts (step c cb)) \<le> maxRequests (step c cb)"
  using assms
  by (cases c; simp add: breaker_defs counts_defs Let_def word_one_le split: if_splits)+

lemma budget_from_closed:
  assumes "state cb = StateClosed"
  shows "state (step c cb) \<noteq> StateHalfOpen"
  using assms
  by (cases c; simp add: breaker_defs counts_defs Let_def split: if_splits)

lemma budget_step:
  assumes "state cb = StateHalfOpen \<longrightarrow>
             n = unat (Requests (counts cb)) \<and> Requests (counts cb) \<le> maxRequests cb"
    and "state (step c cb) = StateHalfOpen"
  shows "(if generation (step c cb) = generation cb then n else 0)
           + (if admitted c cb then 1 else 0) = unat (Requests (counts (step c cb)))
         \<and> Requests (counts (step c cb)) \<le> maxRequests (step c cb)"
proof (cases "state cb")
  case StateClosed
  then show ?thesis using budget_from_closed [of cb c] assms(2) by simp
next
  case StateOpen
  note b = budget_from_open [OF StateOpen assms(2)]
  show ?thesis using b by simp
next
  case StateHalfOpen
  note st = halfOpen_step [OF StateHalfOpen assms(2)]
  from assms(1) StateHalfOpen have n: "n = unat (Requests (counts cb))"
    and le: "Requests (counts cb) \<le> maxRequests cb" by simp_all
  show ?thesis
  proof (cases "admitted c cb")
    case True
    then have lt: "Requests (counts cb) < maxRequests cb"
      using halfOpen_admitted [OF StateHalfOpen] by simp
    then show ?thesis using st True n unat_inc [OF lt] by (simp add: inc_le)
  next
    case False
    then show ?thesis using st n le by simp
  qed
qed

lemma budget_run:
  "(state cb = StateHalfOpen \<longrightarrow>
      n = unat (Requests (counts cb)) \<and> Requests (counts cb) \<le> maxRequests cb) \<Longrightarrow>
   state (run cs cb) = StateHalfOpen \<Longrightarrow>
     probes cs cb n = unat (Requests (counts (run cs cb)))
     \<and> Requests (counts (run cs cb)) \<le> maxRequests (run cs cb)"
proof (induction cs arbitrary: cb n)
  case Nil
  then show ?case by simp
next
  case (Cons c cs)
  have "state (step c cb) = StateHalfOpen \<longrightarrow>
      (if generation (step c cb) = generation cb then n else 0)
        + (if admitted c cb then 1 else 0) = unat (Requests (counts (step c cb)))
      \<and> Requests (counts (step c cb)) \<le> maxRequests (step c cb)"
    using budget_step [OF Cons.prems(1)] by blast
  from Cons.IH [OF this] Cons.prems(2) show ?case by simp
qed

lemma probes_bound:
  assumes "state cb \<noteq> StateHalfOpen" and "state (run cs cb) = StateHalfOpen"
  shows "probes cs cb 0 = unat (Requests (counts (run cs cb)))"
    and "probes cs cb 0 \<le> unat (maxRequests cb)"
proof -
  from assms(1) have i: "state cb = StateHalfOpen \<longrightarrow>
      0 = unat (Requests (counts cb)) \<and> Requests (counts cb) \<le> maxRequests cb" by simp
  note b = budget_run [OF i assms(2)]
  from b show "probes cs cb 0 = unat (Requests (counts (run cs cb)))" by simp
  from b show "probes cs cb 0 \<le> unat (maxRequests cb)"
    by (simp add: run_settings word_le_nat_alt)
qed

subsection \<open>The states of the test, computed\<close>

lemma new_test:
  "NewCircuitBreaker testConfig 0 =
     \<lparr>name = ''random-service'', maxRequests = 6, interval = 1000000000,
      timeout = 1000000000, readyToTrip = testReadyToTrip, onStateChange = True,
      state = StateClosed, generation = 1, counts = zeroCounts,
      expiry = 1000000000, notified = []\<rparr>"
  by (simp add: NewCircuitBreaker_def testConfig_def reset_def counts_defs zeroCounts_def)

lemma testClosed_val:
  "testClosed =
     \<lparr>name = ''random-service'', maxRequests = 6, interval = 1000000000,
      timeout = 1000000000, readyToTrip = testReadyToTrip, onStateChange = True,
      state = StateClosed, generation = 1,
      counts = \<lparr>Requests = 3, TotalSuccesses = 0, TotalFailures = 2,
                ConsecutiveSuccesses = 0, ConsecutiveFailures = 2\<rparr>,
      expiry = 1000000000, notified = []\<rparr>"
  by (simp add: testClosed_def new_test eval_defs)

lemma testOpen_val:
  "testOpen =
     \<lparr>name = ''random-service'', maxRequests = 6, interval = 1000000000,
      timeout = 1000000000, readyToTrip = testReadyToTrip, onStateChange = True,
      state = StateOpen, generation = 2, counts = zeroCounts,
      expiry = 1200000000, notified = [(''random-service'', StateClosed, StateOpen)]\<rparr>"
  by (simp add: testOpen_def testClosed_val eval_defs)

lemma testHalfOpen_val:
  "testHalfOpen =
     \<lparr>name = ''random-service'', maxRequests = 6, interval = 1000000000,
      timeout = 1000000000, readyToTrip = testReadyToTrip, onStateChange = True,
      state = StateHalfOpen, generation = 3, counts = zeroCounts,
      expiry = 0,
      notified = [(''random-service'', StateClosed, StateOpen),
                  (''random-service'', StateOpen, StateHalfOpen)]\<rparr>"
  by (simp add: testHalfOpen_def testOpen_val eval_defs)

lemma testProbed_val:
  "testProbed =
     \<lparr>name = ''random-service'', maxRequests = 6, interval = 1000000000,
      timeout = 1000000000, readyToTrip = testReadyToTrip, onStateChange = True,
      state = StateHalfOpen, generation = 3,
      counts = \<lparr>Requests = 6, TotalSuccesses = 5, TotalFailures = 0,
                ConsecutiveSuccesses = 5, ConsecutiveFailures = 0\<rparr>,
      expiry = 0,
      notified = [(''random-service'', StateClosed, StateOpen),
                  (''random-service'', StateOpen, StateHalfOpen)]\<rparr>"
  by (simp add: testProbed_def testHalfOpen_val eval_defs)

lemma new_scenario:
  "NewCircuitBreaker scenarioConfig 0 =
     \<lparr>name = ''svc'', maxRequests = 1, interval = 0, timeout = 1000000000,
      readyToTrip = testReadyToTrip, onStateChange = True, state = StateClosed,
      generation = 1, counts = zeroCounts, expiry = 0, notified = []\<rparr>"
  by (simp add: NewCircuitBreaker_def scenarioConfig_def reset_def counts_defs
      zeroCounts_def defaultInterval_def)

lemma slowAdmitted_val:
  "slowAdmitted =
     (\<lparr>name = ''svc'', maxRequests = 1, interval = 0, timeout = 1000000000,
       readyToTrip = testReadyToTrip, onStateChange = True, state = StateClosed,
       generation = 1, counts = zeroCounts\<lparr>Requests := 1\<rparr>, expiry = 0,
       notified = []\<rparr>, 1, None)"
  by (simp add: slowAdmitted_def new_scenario eval_defs)

lemma slowHalfOpen_val:
  "slowHalfOpen =
     \<lparr>name = ''svc'', maxRequests = 1, interval = 0, timeout = 1000000000,
      readyToTrip = testReadyToTrip, onStateChange = True, state = StateHalfOpen,
      generation = 3, counts = zeroCounts, expiry = 0,
      notified = [(''svc'', StateClosed, StateOpen), (''svc'', StateOpen, StateHalfOpen)]\<rparr>"
  by (simp add: slowHalfOpen_def slowAdmitted_val eval_defs)

lemma rolledOver_val:
  "rolledOver =
     \<lparr>name = ''random-service'', maxRequests = 6, interval = 1000000000,
      timeout = 1000000000, readyToTrip = testReadyToTrip, onStateChange = True,
      state = StateClosed, generation = 2,
      counts = zeroCounts\<lparr>TotalSuccesses := 1, ConsecutiveSuccesses := 1\<rparr>,
      expiry = 2500000000, notified = []\<rparr>"
  by (simp add: rolledOver_def new_test eval_defs)

section \<open>The claims\<close>

text \<open>
  C1 (fails on the code). The claim: an outcome report is tied to the generation captured
  at its \<^verbatim>\<open>BeforeRequest\<close>, and a report whose generation is no longer the breaker's has
  no effect on the counts and triggers no transition. \<^verbatim>\<open>BeforeRequest\<close> drops the
  generation and \<^verbatim>\<open>OnSuccess\<close> stamps the report with the generation of the moment of
  the report. Here a request is admitted in generation 1 and reports its success when the
  breaker is half-open in generation 3, with no request admitted there: the report closes
  the breaker and the callback is called, where \<^verbatim>\<open>afterRequest\<close> with the stamp 1 leaves
  the breaker as it is; a failure reported instead opens it.
\<close>

theorem C1_stale_report_is_applied:
  "fst (snd slowAdmitted) = 1 \<and> snd (snd slowAdmitted) = None
   \<and> state slowHalfOpen = StateHalfOpen \<and> generation slowHalfOpen = 3
   \<and> counts slowHalfOpen = zeroCounts
   \<and> afterRequest 1 True 1400000000 slowHalfOpen = slowHalfOpen
   \<and> state (OnSuccess 1400000000 slowHalfOpen) = StateClosed
   \<and> generation (OnSuccess 1400000000 slowHalfOpen) = 4
   \<and> notified (OnSuccess 1400000000 slowHalfOpen) =
       notified slowHalfOpen @ [(''svc'', StateHalfOpen, StateClosed)]
   \<and> state (OnFailure 1400000000 slowHalfOpen) = StateOpen"
  by (simp add: slowAdmitted_val slowHalfOpen_val eval_defs)

text \<open>
  C2 (fails on the code). The claim: when every admitted request reports at most one
  outcome and only admitted requests report, \<open>TotalSuccesses + TotalFailures \<le> Requests\<close>
  at all times. Here one request is admitted, the counts roll over at a state read after
  the interval, and the request reports its success: one success is counted against no
  request.
\<close>

theorem C2_successes_exceed_requests:
  "Requests (counts rolledOver) = 0
   \<and> TotalSuccesses (counts rolledOver) = 1
   \<and> TotalFailures (counts rolledOver) = 0
   \<and> \<not> TotalSuccesses (counts rolledOver) + TotalFailures (counts rolledOver)
         \<le> Requests (counts rolledOver)"
  by (simp add: rolledOver_val zeroCounts_def)

text \<open>
  C3. A breaker that entered the open state at the instant \<open>t\<close> expires at
  \<open>t + timeout\<close>. Every \<^verbatim>\<open>BeforeRequest\<close> up to that instant returns
  \<^verbatim>\<open>ErrOpenState\<close> and leaves the breaker as it is, so no request is recorded. A
  \<^verbatim>\<open>BeforeRequest\<close> strictly after it makes the breaker half-open in the next generation,
  calls the callback with (open, half-open) and succeeds with one request recorded;
  \<open>maxRequests\<close> is not 0 in a breaker made by \<^verbatim>\<open>NewCircuitBreaker\<close>.
\<close>

theorem C3_open_rejects_until_timeout:
  assumes "state cb0 \<noteq> StateOpen" and "cb = setState StateOpen t cb0"
  shows "state cb = StateOpen \<and> expiry cb = t + timeout cb
    \<and> (now \<le> t + timeout cb \<longrightarrow> BeforeRequest now cb = (cb, Some ErrOpenState))
    \<and> (t + timeout cb < now \<and> maxRequests cb \<noteq> 0 \<longrightarrow>
          snd (BeforeRequest now cb) = None
        \<and> state (fst (BeforeRequest now cb)) = StateHalfOpen
        \<and> counts (fst (BeforeRequest now cb)) = zeroCounts\<lparr>Requests := 1\<rparr>
        \<and> generation (fst (BeforeRequest now cb)) = generation cb + 1
        \<and> notified (fst (BeforeRequest now cb)) =
            (if onStateChange cb then notified cb @ [(name cb, StateOpen, StateHalfOpen)]
             else notified cb))"
  using assms
  by (auto simp add: breaker_defs counts_defs zeroCounts_def Let_def)

theorem C3_open_rejects_until_timeout_witness:
  "state testClosed \<noteq> StateOpen
   \<and> setState StateOpen 200000000 testClosed = testOpen
   \<and> BeforeRequest 1200000000 testOpen = (testOpen, Some ErrOpenState)
   \<and> maxRequests testOpen \<noteq> 0
   \<and> snd (BeforeRequest 1200000001 testOpen) = None
   \<and> state (fst (BeforeRequest 1200000001 testOpen)) = StateHalfOpen
   \<and> Requests (counts (fst (BeforeRequest 1200000001 testOpen))) = 1"
proof -
  have h1: "state testClosed \<noteq> StateOpen" by (simp add: testClosed_val)
  have h2: "testOpen = setState StateOpen 200000000 testClosed"
    by (simp add: testClosed_val testOpen_val eval_defs)
  have t: "timeout testOpen = 1000000000" and m: "maxRequests testOpen \<noteq> 0"
    by (simp_all add: testOpen_val)
  show ?thesis
    using h1 h2 [symmetric] t m
      C3_open_rejects_until_timeout [OF h1 h2, of 1200000000]
      C3_open_rejects_until_timeout [OF h1 h2, of 1200000001]
    by (simp add: zeroCounts_def)
qed

text \<open>
  C4. In the half-open state a \<^verbatim>\<open>BeforeRequest\<close> that finds
  \<open>Requests \<ge> maxRequests\<close> returns \<^verbatim>\<open>ErrTooManyRequests\<close> and leaves the breaker as it
  is, so \<open>Requests\<close> is not incremented. And at most \<open>maxRequests\<close> admissions succeed
  within one half-open generation: after any calls, at any instants, from a breaker that
  is not half-open, if the breaker is half-open then the admissions of its generation,
  the one that opened it included, are the \<open>Requests\<close> it has recorded and are at most
  \<open>maxRequests\<close>; and from a half-open breaker with \<open>Requests \<le> maxRequests\<close>, along any
  calls that all find it half-open in the same generation, the recorded requests and the
  admissions together are at most \<open>maxRequests\<close>.
\<close>

theorem C4_halfopen_probe_budget:
  "(state cb = StateHalfOpen \<and> maxRequests cb \<le> Requests (counts cb) \<longrightarrow>
      BeforeRequest now cb = (cb, Some ErrTooManyRequests))
   \<and> (state cb \<noteq> StateHalfOpen \<and> state (run cs cb) = StateHalfOpen \<longrightarrow>
        probes cs cb 0 = unat (Requests (counts (run cs cb)))
        \<and> probes cs cb 0 \<le> unat (maxRequests cb))
   \<and> (halfOpenIn g cs cb \<and> Requests (counts cb) \<le> maxRequests cb \<longrightarrow>
        unat (Requests (counts cb)) + admissions cs cb \<le> unat (maxRequests cb))"
proof (intro conjI impI)
  assume "state cb = StateHalfOpen \<and> maxRequests cb \<le> Requests (counts cb)"
  then show "BeforeRequest now cb = (cb, Some ErrTooManyRequests)"
    by (simp add: BeforeRequest_def beforeRequest_def currentState_def)
next
  assume a: "state cb \<noteq> StateHalfOpen \<and> state (run cs cb) = StateHalfOpen"
  then show "probes cs cb 0 = unat (Requests (counts (run cs cb)))"
    using probes_bound(1) [of cb cs] by simp
  from a show "probes cs cb 0 \<le> unat (maxRequests cb)"
    using probes_bound(2) [of cb cs] by simp
next
  assume "halfOpenIn g cs cb \<and> Requests (counts cb) \<le> maxRequests cb"
  then show "unat (Requests (counts cb)) + admissions cs cb \<le> unat (maxRequests cb)"
    using admissions_bound [of g cs cb] by simp
qed

theorem C4_halfopen_probe_budget_witness:
  "state testProbed = StateHalfOpen
   \<and> maxRequests testProbed \<le> Requests (counts testProbed)
   \<and> BeforeRequest 1900000000 testProbed = (testProbed, Some ErrTooManyRequests)
   \<and> state testOpen \<noteq> StateHalfOpen
   \<and> state (run sevenChecks testOpen) = StateHalfOpen
   \<and> probes sevenChecks testOpen 0 = 6
   \<and> unat (Requests (counts (run sevenChecks testOpen))) = 6
   \<and> probes sevenChecks testOpen 0 \<le> unat (maxRequests testOpen)
   \<and> halfOpenIn 3 sevenChecks testHalfOpen
   \<and> Requests (counts testHalfOpen) \<le> maxRequests testHalfOpen
   \<and> admissions sevenChecks testHalfOpen = 6
   \<and> unat (Requests (counts testHalfOpen)) + admissions sevenChecks testHalfOpen
       \<le> unat (maxRequests testHalfOpen)"
proof -
  have h1: "state testProbed = StateHalfOpen
      \<and> maxRequests testProbed \<le> Requests (counts testProbed)"
    by (simp add: testProbed_val)
  have h2: "state testOpen \<noteq> StateHalfOpen
      \<and> state (run sevenChecks testOpen) = StateHalfOpen"
    by (simp add: testOpen_val sevenChecks_def eval_defs)
  have e2: "probes sevenChecks testOpen 0 = 6"
    by (simp add: testOpen_val sevenChecks_def eval_defs)
  have h3: "halfOpenIn 3 sevenChecks testHalfOpen
      \<and> Requests (counts testHalfOpen) \<le> maxRequests testHalfOpen"
    by (simp add: testHalfOpen_val sevenChecks_def eval_defs)
  have e3: "admissions sevenChecks testHalfOpen = 6"
    by (simp add: testHalfOpen_val sevenChecks_def eval_defs)
  show ?thesis
    using h1 h2 e2 h3 e3
      C4_halfopen_probe_budget [of testProbed 1900000000 "[]" 3]
      C4_halfopen_probe_budget [of testOpen 0 sevenChecks 3]
      C4_halfopen_probe_budget [of testHalfOpen 0 sevenChecks 3]
    by simp
qed

text \<open>
  C5. A failure reported to a half-open breaker opens it at once, whatever its counts:
  \<^verbatim>\<open>OnFailure\<close> is \<^verbatim>\<open>onFailure\<close> on the half-open state, the state after it is open, in
  the next generation, with zero counts and the expiry \<open>now + timeout\<close>, and the callback
  is called with (half-open, open).
\<close>

theorem C5_halfopen_failure_opens:
  assumes "state cb = StateHalfOpen"
  shows "OnFailure now cb = onFailure StateHalfOpen now cb
    \<and> state (OnFailure now cb) = StateOpen
    \<and> generation (OnFailure now cb) = generation cb + 1
    \<and> counts (OnFailure now cb) = zeroCounts
    \<and> expiry (OnFailure now cb) = now + timeout cb
    \<and> notified (OnFailure now cb) =
        (if onStateChange cb then notified cb @ [(name cb, StateHalfOpen, StateOpen)]
         else notified cb)"
  using assms
  by (simp add: breaker_defs counts_defs zeroCounts_def Let_def)

theorem C5_halfopen_failure_opens_witness:
  "state testProbed = StateHalfOpen
   \<and> TotalSuccesses (counts testProbed) = 5
   \<and> state (OnFailure 1900000000 testProbed) = StateOpen
   \<and> counts (OnFailure 1900000000 testProbed) = zeroCounts"
proof -
  have h: "state testProbed = StateHalfOpen" by (simp add: testProbed_val)
  have s: "TotalSuccesses (counts testProbed) = 5" by (simp add: testProbed_val)
  show ?thesis
    using h s C5_halfopen_failure_opens [OF h, of 1900000000] by blast
qed

text \<open>
  C6. A success reported to a half-open breaker that brings \<open>ConsecutiveSuccesses\<close>
  (the counter plus one, as \<^verbatim>\<open>uint32\<close>) to at least \<open>maxRequests\<close> closes the breaker:
  the state after it is closed, in the next generation, all counts are zero, and the
  callback is called with (half-open, closed).
\<close>

theorem C6_halfopen_successes_close:
  assumes "state cb = StateHalfOpen"
    and "maxRequests cb \<le> ConsecutiveSuccesses (counts cb) + 1"
  shows "OnSuccess now cb = onSuccess StateHalfOpen now cb
    \<and> state (OnSuccess now cb) = StateClosed
    \<and> counts (OnSuccess now cb) = zeroCounts
    \<and> generation (OnSuccess now cb) = generation cb + 1
    \<and> expiry (OnSuccess now cb) = (if interval cb = 0 then 0 else now + interval cb)
    \<and> notified (OnSuccess now cb) =
        (if onStateChange cb then notified cb @ [(name cb, StateHalfOpen, StateClosed)]
         else notified cb)"
  using assms
  by (simp add: breaker_defs counts_defs zeroCounts_def Let_def)

theorem C6_halfopen_successes_close_witness:
  "state testProbed = StateHalfOpen
   \<and> maxRequests testProbed \<le> ConsecutiveSuccesses (counts testProbed) + 1
   \<and> state (OnSuccess 1800000000 testProbed) = StateClosed
   \<and> counts (OnSuccess 1800000000 testProbed) = zeroCounts"
proof -
  have h1: "state testProbed = StateHalfOpen" by (simp add: testProbed_val)
  have h2: "maxRequests testProbed \<le> ConsecutiveSuccesses (counts testProbed) + 1"
    by (simp add: testProbed_val)
  show ?thesis
    using h1 h2 C6_halfopen_successes_close [OF h1 h2, of 1800000000] by blast
qed

text \<open>
  C7. A failure applied to a closed breaker after which \<open>readyToTrip\<close> holds of the
  counts opens the breaker: the state is open, a state read at any instant up to
  \<open>now + timeout\<close> returns open and changes nothing, and the callback, when set, has been
  called once more, with (closed, open). \<^verbatim>\<open>OnFailure\<close> is that failure when no rollover
  of the counts is due.
\<close>

theorem C7_closed_failure_trips:
  assumes "state cb = StateClosed"
    and "readyToTrip cb (Counts_onFailure (counts cb))"
    and "now' \<le> now + timeout cb"
  shows "state (onFailure StateClosed now cb) = StateOpen
    \<and> CircuitBreaker_State now' (onFailure StateClosed now cb) =
        (onFailure StateClosed now cb, StateOpen)
    \<and> notified (onFailure StateClosed now cb) =
        (if onStateChange cb then notified cb @ [(name cb, StateClosed, StateOpen)]
         else notified cb)
    \<and> (\<not> (expiry cb \<noteq> 0 \<and> expiry cb < now) \<longrightarrow>
         OnFailure now cb = onFailure StateClosed now cb)"
  using assms
  by (simp add: breaker_defs counts_defs Let_def)

theorem C7_closed_failure_trips_witness:
  "state testClosed = StateClosed
   \<and> readyToTrip testClosed (Counts_onFailure (counts testClosed))
   \<and> (200000000 :: int) \<le> 200000000 + timeout testClosed
   \<and> \<not> (expiry testClosed \<noteq> 0 \<and> expiry testClosed < 200000000)
   \<and> state (OnFailure 200000000 testClosed) = StateOpen
   \<and> snd (CircuitBreaker_State 200000000 (OnFailure 200000000 testClosed)) = StateOpen
   \<and> notified (OnFailure 200000000 testClosed) =
       [(''random-service'', StateClosed, StateOpen)]"
proof -
  have h1: "state testClosed = StateClosed" by (simp add: testClosed_val)
  have h2: "readyToTrip testClosed (Counts_onFailure (counts testClosed))"
    by (simp add: testClosed_val Counts_onFailure_def testReadyToTrip_def)
  have h3: "(200000000 :: int) \<le> 200000000 + timeout testClosed"
    by (simp add: testClosed_val)
  have h4: "\<not> (expiry testClosed \<noteq> 0 \<and> expiry testClosed < 200000000)"
    by (simp add: testClosed_val)
  have f: "onStateChange testClosed \<and> notified testClosed = []
      \<and> name testClosed = ''random-service''"
    by (simp add: testClosed_val)
  show ?thesis
    using h1 h2 h3 h4 f C7_closed_failure_trips [OF h1 h2 h3] by simp
qed

text \<open>
  C8. When the breaker is closed and its expiry is set and has passed, the state
  resolution \<^verbatim>\<open>currentState\<close> is one \<^verbatim>\<open>reset\<close>: the counts are cleared, the generation
  is incremented, the state is still closed and the callback is not called. So it is for
  every exported operation that resolves the state: \<^verbatim>\<open>State\<close>, \<^verbatim>\<open>OnSuccess\<close> and
  \<^verbatim>\<open>OnFailure\<close> leave the breaker as \<^verbatim>\<open>reset\<close> does, and \<^verbatim>\<open>BeforeRequest\<close> then records
  its request in the cleared counts.
\<close>

theorem C8_closed_rollover:
  assumes "state cb = StateClosed" and "expiry cb \<noteq> 0" and "expiry cb < now"
  shows "currentState now cb = (reset now cb, StateClosed, generation cb + 1)
    \<and> state (reset now cb) = StateClosed
    \<and> counts (reset now cb) = zeroCounts
    \<and> generation (reset now cb) = generation cb + 1
    \<and> notified (reset now cb) = notified cb
    \<and> CircuitBreaker_State now cb = (reset now cb, StateClosed)
    \<and> BeforeRequest now cb = ((reset now cb)\<lparr>counts := zeroCounts\<lparr>Requests := 1\<rparr>\<rparr>, None)
    \<and> OnSuccess now cb = reset now cb
    \<and> OnFailure now cb = reset now cb"
  using assms
  by (simp add: breaker_defs counts_defs zeroCounts_def Let_def)

theorem C8_closed_rollover_witness:
  "state testClosed = StateClosed \<and> expiry testClosed \<noteq> 0
   \<and> expiry testClosed < 1500000000
   \<and> Requests (counts testClosed) = 3
   \<and> counts (fst (CircuitBreaker_State 1500000000 testClosed)) = zeroCounts
   \<and> state (fst (CircuitBreaker_State 1500000000 testClosed)) = StateClosed
   \<and> generation (fst (CircuitBreaker_State 1500000000 testClosed)) = 2
   \<and> notified (fst (CircuitBreaker_State 1500000000 testClosed)) = []
   \<and> Requests (counts (fst (BeforeRequest 1500000000 testClosed))) = 1"
proof -
  have h1: "state testClosed = StateClosed" by (simp add: testClosed_val)
  have h2: "expiry testClosed \<noteq> 0" by (simp add: testClosed_val)
  have h3: "expiry testClosed < 1500000000" by (simp add: testClosed_val)
  have f: "Requests (counts testClosed) = 3 \<and> generation testClosed = 1
      \<and> notified testClosed = []"
    by (simp add: testClosed_val)
  show ?thesis
    using h1 h2 h3 f C8_closed_rollover [OF h1 h2 h3] by (simp add: zeroCounts_def)
qed

text \<open>
  C9. After any sequence of calls of the exported methods, at any instants, on a breaker
  made by \<^verbatim>\<open>NewCircuitBreaker\<close>, one of \<open>ConsecutiveSuccesses\<close> and
  \<open>ConsecutiveFailures\<close> is zero.
\<close>

theorem C9_streaks_never_both_nonzero:
  "streaksExclusive (counts (run cs (NewCircuitBreaker st now)))"
  by (rule streaks_run) (simp add: NewCircuitBreaker_def streaks_reset)

text \<open>
  C10. An outcome report that resolves the state to open and passes the generation check
  changes nothing: the breaker after \<^verbatim>\<open>afterRequest\<close> is the breaker before it, with its
  state, counts, generation, expiry and calls of the callback. The same holds of
  \<^verbatim>\<open>OnSuccess\<close> and \<^verbatim>\<open>OnFailure\<close>, whose stamp is the generation of the breaker.
\<close>

theorem C10_report_while_open_is_noop:
  assumes "currentState now cb = (cb1, StateOpen, gen)" and "gen = before"
  shows "afterRequest before success now cb = cb
    \<and> OnSuccess now cb = cb \<and> OnFailure now cb = cb"
proof -
  from currentState_Open [OF assms(1)] assms(2)
  have c: "cb1 = cb" and g: "before = generation cb" by simp_all
  from assms(1) c g have cs: "currentState now cb = (cb, StateOpen, generation cb)"
    using currentState_Open [OF assms(1)] by simp
  show ?thesis
    by (simp add: OnSuccess_def OnFailure_def afterRequest_def cs g onSuccess_def
        onFailure_def)
qed

theorem C10_report_while_open_is_noop_witness:
  "currentState 1000000000 testOpen = (testOpen, StateOpen, 2)
   \<and> afterRequest 2 True 1000000000 testOpen = testOpen
   \<and> afterRequest 2 False 1000000000 testOpen = testOpen
   \<and> OnSuccess 1000000000 testOpen = testOpen
   \<and> OnFailure 1000000000 testOpen = testOpen"
proof -
  have h: "currentState 1000000000 testOpen = (testOpen, StateOpen, 2)"
    by (simp add: testOpen_val currentState_def)
  show ?thesis
    using h C10_report_while_open_is_noop [OF h refl, of True]
      C10_report_while_open_is_noop [OF h refl, of False]
    by blast
qed

end
